theory Spec2Isabelle
  imports Main
begin

section \<open>Go strings, UTF-8 and white space\<close>

text \<open>
  A Go string is a sequence of bytes; \<^typ>\<open>string\<close> (a list of 8-bit characters) is
  used for it, one \<^typ>\<open>char\<close> per byte.  Code points are natural numbers.
\<close>

type_synonym rune = nat

definition byte :: "char \<Rightarrow> nat" where
  "byte c = of_char c"

definition RuneError :: rune where
  "RuneError = 0xFFFD"

text \<open>
  \<^verbatim>\<open>utf8.DecodeRuneInString\<close>: the first code point of a string and the number of bytes
  it takes.  An ill-formed or truncated sequence decodes to \<^const>\<open>RuneError\<close> of width 1,
  the empty string to \<^const>\<open>RuneError\<close> of width 0.  The second byte has a range of its
  own for the lead bytes E0, ED, F0 and F4.
\<close>

definition cont :: "char \<Rightarrow> bool" where
  "cont c = (0x80 \<le> byte c \<and> byte c \<le> 0xBF)"

fun DecodeRuneInString :: "string \<Rightarrow> rune \<times> nat" where
  "DecodeRuneInString [] = (RuneError, 0)"
| "DecodeRuneInString (c0 # cs) =
     (let s0 = byte c0 in
      if s0 < 0x80 then (s0, 1)
      else if s0 < 0xC2 \<or> 0xF4 < s0 then (RuneError, 1)
      else
        let sz = (if s0 < 0xE0 then 2 else if s0 < 0xF0 then 3 else 4 :: nat);
            lo = (if s0 = 0xE0 then 0xA0 else if s0 = 0xF0 then 0x90 else 0x80 :: nat);
            hi = (if s0 = 0xED then 0x9F else if s0 = 0xF4 then 0x8F else 0xBF :: nat)
        in
        if length (c0 # cs) < sz then (RuneError, 1)
        else
          (case cs of
             [] \<Rightarrow> (RuneError, 1)
           | c1 # cs1 \<Rightarrow>
               if byte c1 < lo \<or> hi < byte c1 then (RuneError, 1)
               else if sz \<le> 2 then ((s0 mod 0x20) * 0x40 + byte c1 mod 0x40, 2)
               else
                 (case cs1 of
                    [] \<Rightarrow> (RuneError, 1)
                  | c2 # cs2 \<Rightarrow>
                      if \<not> cont c2 then (RuneError, 1)
                      else if sz \<le> 3 then
                        ((s0 mod 0x10) * 0x1000 + (byte c1 mod 0x40) * 0x40 + byte c2 mod 0x40, 3)
                      else
                        (case cs2 of
                           [] \<Rightarrow> (RuneError, 1)
                         | c3 # cs3 \<Rightarrow>
                             if \<not> cont c3 then (RuneError, 1)
                             else
                               ((s0 mod 0x08) * 0x40000 + (byte c1 mod 0x40) * 0x1000
                                  + (byte c2 mod 0x40) * 0x40 + byte c3 mod 0x40, 4)))))"

text \<open>
  \<^verbatim>\<open>utf8.DecodeLastRuneInString\<close>: the last code point, found by going back at most four
  bytes to a byte that can start a sequence and decoding forwards from there.
\<close>

definition RuneStart :: "char \<Rightarrow> bool" where
  "RuneStart c = (\<not> cont c)"

fun lastStart :: "string \<Rightarrow> nat \<Rightarrow> nat \<Rightarrow> int" where
  "lastStart s lim start =
     (if start < lim then int start
      else if RuneStart (s ! start) then int start
      else (case start of 0 \<Rightarrow> - 1 | Suc k \<Rightarrow> lastStart s lim k))"

definition lastRuneStart :: "string \<Rightarrow> nat" where
  "lastRuneStart s =
     (let e = length s;
          lim = e - 4;
          st0 = (if e = 1 then - 1 else lastStart s lim (e - 2))
      in if st0 < 0 then 0 else nat st0)"

definition DecodeLastRuneInString :: "string \<Rightarrow> rune \<times> nat" where
  "DecodeLastRuneInString s =
     (let e = length s in
      if e = 0 then (RuneError, 0)
      else if byte (s ! (e - 1)) < 0x80 then (byte (s ! (e - 1)), 1)
      else
        let start = lastRuneStart s;
            (r, sz) = DecodeRuneInString (drop start s)
        in if start + sz \<noteq> e then (RuneError, 1) else (r, sz))"

text \<open>
  The conversion \<^verbatim>\<open>[]rune(s)\<close> and a \<^verbatim>\<open>range\<close> loop over a string decode it from
  the left, one \<^const>\<open>DecodeRuneInString\<close> at a time.
\<close>

fun runes :: "string \<Rightarrow> rune list" where
  "runes [] = []"
| "runes (c # cs) =
     (let (r, n) = DecodeRuneInString (c # cs) in r # runes (drop (n - 1) cs))"

text \<open>\<^verbatim>\<open>unicode.IsSpace\<close>: the code points with the Unicode property White_Space.\<close>

definition IsSpace :: "rune \<Rightarrow> bool" where
  "IsSpace r =
     ((0x09 \<le> r \<and> r \<le> 0x0D) \<or> r = 0x20 \<or> r = 0x85 \<or> r = 0xA0 \<or> r = 0x1680
      \<or> (0x2000 \<le> r \<and> r \<le> 0x200A) \<or> r = 0x2028 \<or> r = 0x2029 \<or> r = 0x202F
      \<or> r = 0x205F \<or> r = 0x3000)"

text \<open>
  \<^verbatim>\<open>strings.TrimSpace\<close> removes the leading and the trailing white space, as
  \<^verbatim>\<open>strings.TrimFunc(s, unicode.IsSpace)\<close> does: the left end is found decoding forwards,
  the right end decoding backwards.
\<close>

fun TrimLeftSpace :: "string \<Rightarrow> string" where
  "TrimLeftSpace [] = []"
| "TrimLeftSpace (c # cs) =
     (let (r, n) = DecodeRuneInString (c # cs) in
      if IsSpace r then TrimLeftSpace (drop (n - 1) cs) else c # cs)"

lemma DecodeRuneInString_size: "snd (DecodeRuneInString s) \<le> length s"
  by (cases s) (auto simp: Let_def split: list.splits)

declare lastStart.simps [simp del]

lemma lastStart_le: "lastStart s lim k \<le> int k"
proof (induction k)
  case 0
  show ?case by (simp add: lastStart.simps [of s lim 0])
next
  case (Suc k)
  then show ?case by (simp add: lastStart.simps [of s lim "Suc k"])
qed

lemma lastRuneStart_less:
  assumes "s \<noteq> []"
  shows "lastRuneStart s < length s"
proof -
  define e where "e = length s"
  define st0 where "st0 = (if e = 1 then - 1 else lastStart s (e - 4) (e - 2))"
  from assms have e: "1 \<le> e" by (cases s) (simp_all add: e_def)
  have "st0 \<le> int e - 2 \<or> st0 = - 1"
  proof (cases "e = 1")
    case True
    then show ?thesis by (simp add: st0_def)
  next
    case False
    with e have "int (e - 2) = int e - 2" by simp
    with False show ?thesis
      using lastStart_le [of s "e - 4" "e - 2"] by (simp add: st0_def)
  qed
  with e have "(if st0 < 0 then 0 else nat st0) < e" by auto
  then show ?thesis
    unfolding lastRuneStart_def Let_def st0_def e_def .
qed

lemma DecodeLastRuneInString_size:
  assumes "s \<noteq> []"
  shows "1 \<le> snd (DecodeLastRuneInString s)"
  using lastRuneStart_less [OF assms] assms
  by (auto simp: DecodeLastRuneInString_def Let_def split: prod.splits)

function lastIndexNonSpace :: "string \<Rightarrow> nat \<Rightarrow> int" where
  "lastIndexNonSpace s i =
     (if i = 0 \<or> length s < i then - 1
      else
        let (r, sz) = DecodeLastRuneInString (take i s) in
        if \<not> IsSpace r then int i - int sz else lastIndexNonSpace s (i - sz))"
  by pat_completeness auto
termination
proof (relation "measure (\<lambda>(s, i). i)")
  show "wf (measure (\<lambda>(s, i). i))" by simp
next
  fix s :: string and i :: nat and x :: "rune \<times> nat" and r :: rune and sz :: nat
  assume a: "\<not> (i = 0 \<or> length s < i)" and x: "x = DecodeLastRuneInString (take i s)"
    and p: "(r, sz) = x"
  from a have "take i s \<noteq> []" by auto
  from DecodeLastRuneInString_size [OF this] x p have "1 \<le> sz"
    by (metis snd_conv)
  with a show "((s, i - sz), (s, i)) \<in> measure (\<lambda>(s, i). i)" by simp
qed

definition TrimRightSpace :: "string \<Rightarrow> string" where
  "TrimRightSpace s =
     (let i = lastIndexNonSpace s (length s) in
      if 0 \<le> i \<and> 0x80 \<le> byte (s ! nat i)
      then take (nat i + snd (DecodeRuneInString (drop (nat i) s))) s
      else take (nat (i + 1)) s)"

definition TrimSpace :: "string \<Rightarrow> string" where
  "TrimSpace s = TrimRightSpace (TrimLeftSpace s)"

text \<open>
  \<^verbatim>\<open>spaceRegexp.ReplaceAllString(s, " ")\<close> for the expression \<^verbatim>\<open>\s+\<close>: every maximal run of
  the bytes tab, line feed, form feed, carriage return and space (the class \<^verbatim>\<open>\s\<close> of Go's
  regular expressions, which is ASCII only) becomes one space.  A byte below 0x80 is always
  a code point of its own, so the replacement can be read off the bytes.
\<close>

definition reSpace :: "char \<Rightarrow> bool" where
  "reSpace c = (byte c = 0x09 \<or> byte c = 0x0A \<or> byte c = 0x0C \<or> byte c = 0x0D \<or> byte c = 0x20)"

function ReplaceAllSpace :: "string \<Rightarrow> string" where
  "ReplaceAllSpace [] = []"
| "ReplaceAllSpace (c # cs) =
     (if reSpace c then CHR '' '' # ReplaceAllSpace (dropWhile reSpace cs)
      else c # ReplaceAllSpace cs)"
  by pat_completeness auto
termination
  by (relation "measure length") (auto simp: le_imp_less_Suc length_dropWhile_le)

section \<open>Errors\<close>

text \<open>
  The sentinel errors of package validation, an error made by \<^verbatim>\<open>fmt.Errorf("%w: %s", e, cause)\<close>
  (it wraps \<open>e\<close>), and an error that wraps nothing (\<^verbatim>\<open>errors.New\<close>, or \<^verbatim>\<open>fmt.Errorf\<close>
  without \<^verbatim>\<open>%w\<close>), kept with its message.
\<close>

datatype error =
    ErrInvalidURL
  | ErrEmptyHeadline
  | ErrFeedPublicationDateFormat
  | ErrHeadlineTooLong
  | ErrPublicationTooOld
  | ErrFuturePublication
  | ErrMissingPublishDate
  | Wrap error error
  | ErrorString string

fun errors_Is :: "error \<Rightarrow> error \<Rightarrow> bool" where
  "errors_Is (Wrap e cause) target = (Wrap e cause = target \<or> errors_Is e target)"
| "errors_Is e target = (e = target)"

section \<open>Headline validation\<close>

text \<open>\<^verbatim>\<open>validation.ValidateAndSanitizeHeadline\<close>; \<open>maxLength\<close> is a Go \<^verbatim>\<open>int\<close>.\<close>

definition ValidateAndSanitizeHeadline :: "string \<Rightarrow> int \<Rightarrow> error + string" where
  "ValidateAndSanitizeHeadline rawHeadline maxLength =
     (if rawHeadline = [] then Inl ErrEmptyHeadline
      else
        let headline = TrimSpace (ReplaceAllSpace rawHeadline) in
        if int (length (runes headline)) > maxLength then Inl ErrHeadlineTooLong
        else Inr headline)"

section \<open>Package time\<close>

text \<open>
  A \<^verbatim>\<open>time.Time\<close> is an instant (seconds and nanoseconds since the Unix epoch) with a
  location, which says how the instant is shown.  The locations the program meets are
  \<^verbatim>\<open>time.UTC\<close>, \<^verbatim>\<open>time.Local\<close> and the fixed zones \<^verbatim>\<open>time.Parse\<close> makes up for an offset
  or an abbreviation it cannot place.  Instants are unbounded integers here; a
  \<^verbatim>\<open>time.Duration\<close> is a count of nanoseconds in 64 bits.
\<close>

datatype Location = UTC | Local | FixedZone string int

record Time =
  unixSec :: int
  nsec :: int
  loc :: Location

text \<open>
  What the process knows about its local zone: the abbreviation and the offset (seconds
  east of UTC) in effect at a Unix time, and the offset of an abbreviation of the zone
  (\<^verbatim>\<open>Location.lookup\<close> and \<^verbatim>\<open>Location.lookupName\<close>).  The wall clock is the sequence of its
  readings; a computation carries the number of readings made so far.
\<close>

record env =
  zoneAt :: "int \<Rightarrow> string \<times> int"
  zoneNamed :: "string \<Rightarrow> int \<Rightarrow> int option"
  clock :: "nat \<Rightarrow> int \<times> int"

definition Now :: "env \<Rightarrow> nat \<Rightarrow> Time \<times> nat" where
  "Now e n = (\<lparr>unixSec = fst (clock e n), nsec = snd (clock e n), loc = Local\<rparr>, Suc n)"

definition offsetOf :: "env \<Rightarrow> Time \<Rightarrow> int" where
  "offsetOf e t =
     (case loc t of UTC \<Rightarrow> 0 | Local \<Rightarrow> snd (zoneAt e (unixSec t)) | FixedZone name off \<Rightarrow> off)"

definition Time_UTC :: "Time \<Rightarrow> Time" where
  "Time_UTC t = t\<lparr>loc := UTC\<rparr>"

subsection \<open>Durations\<close>

type_synonym Duration = int

definition minDuration :: Duration where
  "minDuration = - (2 ^ 63)"

definition maxDuration :: Duration where
  "maxDuration = 2 ^ 63 - 1"

text \<open>
  \<^verbatim>\<open>t.Sub(u)\<close>: the duration \<open>t - u\<close>, or the smallest or the largest duration when the
  difference does not fit one.
\<close>

definition Sub :: "Time \<Rightarrow> Time \<Rightarrow> Duration" where
  "Sub t u =
     (let d = (unixSec t - unixSec u) * 1000000000 + (nsec t - nsec u) in
      if d < minDuration then minDuration
      else if maxDuration < d then maxDuration
      else d)"

subsection \<open>The calendar\<close>

text \<open>
  The proleptic Gregorian calendar.  \<open>daysSinceEpoch y\<close> is the number of days from
  1 January 1970 to 1 January of the year \<open>y\<close>; \<open>daysBefore m\<close> the number of days of a
  common year before the month \<open>m\<close>.
\<close>

definition isLeap :: "int \<Rightarrow> bool" where
  "isLeap y = (y mod 4 = 0 \<and> (y mod 100 \<noteq> 0 \<or> y mod 400 = 0))"

definition daysSinceEpoch :: "int \<Rightarrow> int" where
  "daysSinceEpoch y =
     365 * (y - 1) + (y - 1) div 4 - (y - 1) div 100 + (y - 1) div 400 - 719162"

definition daysBefore :: "int \<Rightarrow> int" where
  "daysBefore m =
     (if m \<le> 1 then 0 else if m = 2 then 31 else if m = 3 then 59 else if m = 4 then 90
      else if m = 5 then 120 else if m = 6 then 151 else if m = 7 then 181
      else if m = 8 then 212 else if m = 9 then 243 else if m = 10 then 273
      else if m = 11 then 304 else if m = 12 then 334 else 365)"

definition leapDay :: "int \<Rightarrow> int \<Rightarrow> int" where
  "leapDay y m = (if isLeap y \<and> 3 \<le> m then 1 else 0)"

definition daysIn :: "int \<Rightarrow> int \<Rightarrow> int" where
  "daysIn m y =
     (if m = 2 \<and> isLeap y then 29 else daysBefore (m + 1) - daysBefore m)"

text \<open>
  \<^verbatim>\<open>time.Date(year, month, day, hour, min, sec, nsec, time.UTC)\<close>.  Values out of their
  range are carried over: a month past December into the year, and days, hours, minutes,
  seconds and nanoseconds into the count of seconds.
\<close>

definition Date :: "int \<Rightarrow> int \<Rightarrow> int \<Rightarrow> int \<Rightarrow> int \<Rightarrow> int \<Rightarrow> int \<Rightarrow> Time" where
  "Date year month day hour minute sec ns =
     (let y = year + (month - 1) div 12;
          m = (month - 1) mod 12 + 1;
          d = daysSinceEpoch y + daysBefore m + leapDay y m + (day - 1)
      in \<lparr>unixSec = d * 86400 + hour * 3600 + minute * 60 + sec + ns div 1000000000,
          nsec = ns mod 1000000000,
          loc = UTC\<rparr>)"

text \<open>
  From an instant back to the calendar.  The year of a day number is estimated from the
  mean length of a year and is off by one at most; the month is read from the day of the
  year.
\<close>

definition yearOfDays :: "int \<Rightarrow> int" where
  "yearOfDays n =
     (let y0 = (400 * (n + 719162)) div 146097 + 1 in
      if daysSinceEpoch (y0 + 1) \<le> n then y0 + 1
      else if n < daysSinceEpoch y0 then y0 - 1
      else y0)"

definition monthOfYday :: "int \<Rightarrow> int \<Rightarrow> int" where
  "monthOfYday y yday =
     (let l = (if isLeap y then 1 else 0) in
      if yday < 31 then 1 else if yday < 59 + l then 2 else if yday < 90 + l then 3
      else if yday < 120 + l then 4 else if yday < 151 + l then 5
      else if yday < 181 + l then 6 else if yday < 212 + l then 7
      else if yday < 243 + l then 8 else if yday < 273 + l then 9
      else if yday < 304 + l then 10 else if yday < 334 + l then 11 else 12)"

definition absDays :: "env \<Rightarrow> Time \<Rightarrow> int" where
  "absDays e t = (unixSec t + offsetOf e t) div 86400"

definition Year :: "env \<Rightarrow> Time \<Rightarrow> int" where
  "Year e t = yearOfDays (absDays e t)"

definition YearDay0 :: "env \<Rightarrow> Time \<Rightarrow> int" where
  "YearDay0 e t = absDays e t - daysSinceEpoch (Year e t)"

definition Month :: "env \<Rightarrow> Time \<Rightarrow> int" where
  "Month e t = monthOfYday (Year e t) (YearDay0 e t)"

definition Day :: "env \<Rightarrow> Time \<Rightarrow> int" where
  "Day e t =
     YearDay0 e t - daysBefore (Month e t) - leapDay (Year e t) (Month e t) + 1"

definition Hour :: "env \<Rightarrow> Time \<Rightarrow> int" where
  "Hour e t = ((unixSec t + offsetOf e t) mod 86400) div 3600"

definition Minute :: "env \<Rightarrow> Time \<Rightarrow> int" where
  "Minute e t = ((unixSec t + offsetOf e t) mod 3600) div 60"

definition Second :: "env \<Rightarrow> Time \<Rightarrow> int" where
  "Second e t = (unixSec t + offsetOf e t) mod 60"

text \<open>\<^verbatim>\<open>t.Weekday()\<close>, Sunday being 0: 1 January 1970 was a Thursday.\<close>

definition Weekday :: "env \<Rightarrow> Time \<Rightarrow> int" where
  "Weekday e t = (absDays e t + 4) mod 7"

text \<open>
  \<^verbatim>\<open>t.AddDate(years, months, days)\<close> for a time in UTC: the date of \<open>t\<close> with the three
  numbers added, normalized as \<^const>\<open>Date\<close> does.
\<close>

definition AddDate :: "env \<Rightarrow> Time \<Rightarrow> int \<Rightarrow> int \<Rightarrow> int \<Rightarrow> Time" where
  "AddDate e t years months days =
     Date (Year e t + years) (Month e t + months) (Day e t + days)
       (Hour e t) (Minute e t) (Second e t) (nsec t)"

section \<open>Package strings\<close>

definition HasPrefix :: "string \<Rightarrow> string \<Rightarrow> bool" where
  "HasPrefix s p = (take (length p) s = p)"

fun Contains :: "string \<Rightarrow> string \<Rightarrow> bool" where
  "Contains [] substr = (substr = [])"
| "Contains (c # cs) substr = (HasPrefix (c # cs) substr \<or> Contains cs substr)"

text \<open>\<^verbatim>\<open>strings.Replace(s, old, new, 1)\<close>: the first occurrence of \<open>old\<close> replaced.\<close>

fun Replace1 :: "string \<Rightarrow> string \<Rightarrow> string \<Rightarrow> string" where
  "Replace1 [] old new = (if old = [] then new else [])"
| "Replace1 (c # cs) old new =
     (if HasPrefix (c # cs) old then new @ drop (length old) (c # cs)
      else c # Replace1 cs old new)"

definition upperAZ :: "char \<Rightarrow> bool" where
  "upperAZ c = (0x41 \<le> byte c \<and> byte c \<le> 0x5A)"

definition lowerAZ :: "char \<Rightarrow> bool" where
  "lowerAZ c = (0x61 \<le> byte c \<and> byte c \<le> 0x7A)"

text \<open>
  \<^verbatim>\<open>strings.ToLower\<close> on the letters A to Z.  The program lowers only what the classes
  \<^verbatim>\<open>[A-Z]\<close> and \<^verbatim>\<open>[a-z]\<close> of \<open>eetePattern\<close> have matched, so other code points do not reach it.
\<close>

definition ToLower :: "string \<Rightarrow> string" where
  "ToLower s = map (\<lambda>c. if upperAZ c then char_of (byte c + 0x20) else c) s"

section \<open>Package dateparser: the malformed-token pattern\<close>

text \<open>
  \<open>eetePattern\<close> is \<^verbatim>\<open>^([A-Z][a-z]{2})(AM|PM)(EETE_R|EESTE_R)([A-Z][a-z]+)C822$\<close>.
  \<open>FindStringSubmatch\<close> gives the whole match and the four groups, or nothing.  The
  alternatives of a group exclude one another, and \<^verbatim>\<open>[a-z]+\<close> cannot stop before a lower-case
  letter since \<open>C\<close> has to follow, so a match is found reading from left to right.
\<close>

fun alternative :: "string list \<Rightarrow> string \<Rightarrow> (string \<times> string) option" where
  "alternative [] s = None"
| "alternative (a # as) s =
     (if HasPrefix s a then Some (a, drop (length a) s) else alternative as s)"

definition eetePattern_FindStringSubmatch :: "string \<Rightarrow> string list option" where
  "eetePattern_FindStringSubmatch s =
     (case s of
        c1 # c2 # c3 # r1 \<Rightarrow>
          if upperAZ c1 \<and> lowerAZ c2 \<and> lowerAZ c3 then
            (case alternative [''AM'', ''PM''] r1 of
               None \<Rightarrow> None
             | Some (ampm, r2) \<Rightarrow>
                 (case alternative [''EETE_R'', ''EESTE_R''] r2 of
                    None \<Rightarrow> None
                  | Some (patternType, r3) \<Rightarrow>
                      (case r3 of
                         [] \<Rightarrow> None
                       | m1 # r4 \<Rightarrow>
                           if upperAZ m1 \<and> takeWhile lowerAZ r4 \<noteq> []
                              \<and> dropWhile lowerAZ r4 = ''C822''
                           then Some [s, [c1, c2, c3], ampm, patternType,
                                      m1 # takeWhile lowerAZ r4]
                           else None)))
          else None
      | _ \<Rightarrow> None)"

definition monthMap :: "(string \<times> int) list" where
  "monthMap =
     [(''january'', 1), (''february'', 2), (''march'', 3), (''april'', 4), (''may'', 5),
      (''june'', 6), (''july'', 7), (''august'', 8), (''september'', 9), (''october'', 10),
      (''november'', 11), (''december'', 12)]"

definition weekdayMap :: "(string \<times> int) list" where
  "weekdayMap =
     [(''sun'', 0), (''mon'', 1), (''tue'', 2), (''wed'', 3), (''thu'', 4), (''fri'', 5),
      (''sat'', 6)]"

definition parseWeekday :: "string \<Rightarrow> int" where
  "parseWeekday day = (case map_of weekdayMap (ToLower day) of Some w \<Rightarrow> w | None \<Rightarrow> - 1)"

text \<open>
  \<open>parseEETEPattern\<close>.  It reads the clock once for the year, and once more for the month
  when the month name is not in \<^const>\<open>monthMap\<close>; the result comes with the number of
  readings made.
\<close>

definition parseEETEPattern :: "env \<Rightarrow> nat \<Rightarrow> string \<Rightarrow> (error + Time) \<times> nat" where
  "parseEETEPattern e n dateStr =
     (case eetePattern_FindStringSubmatch dateStr of
        Some [whole, weekday, ampm, patternType, month] \<Rightarrow>
          let (now1, n1) = Now e n;
              currentYear = Year e now1;
              (monthNum, n2) =
                (case map_of monthMap (ToLower month) of
                   Some k \<Rightarrow> (k, n1)
                 | None \<Rightarrow> (let (now2, n') = Now e n1 in (Month e now2, n')));
              t = Date currentYear monthNum 1 0 0 0 0;
              weekdayNum = parseWeekday weekday;
              t' = (if weekdayNum \<ge> 0
                    then AddDate e t 0 0 ((weekdayNum - Weekday e t + 7) mod 7)
                    else t);
              hour = (if ampm = ''PM'' then 15 else 9);
              minute = (if patternType = ''EESTE_R'' then 30 else 0);
              result = Date (Year e t') (Month e t') (Day e t') hour minute 0 0
          in (Inr result, n2)
      | _ \<Rightarrow> (Inl (ErrorString (''invalid EETE_R format: '' @ dateStr)), n))"

section \<open>The calendar: properties\<close>

text \<open>
  A year has 365 or 366 days, so the first days of the years increase, and the year of a
  day number is the one year whose days include it.
\<close>

lemma div_pred:
  fixes y k :: int
  assumes "0 < k"
  shows "y div k - (y - 1) div k = (if y mod k = 0 then 1 else 0)"
proof -
  define q where "q = y div k"
  define r where "r = y mod k"
  have y: "y = k * q + r" by (simp add: q_def r_def)
  have r: "0 \<le> r" "r < k" using assms by (simp_all add: r_def)
  show ?thesis
  proof (cases "r = 0")
    case True
    have "y - 1 = k * (q - 1) + (k - 1)" using y True by (simp add: algebra_simps)
    from int_div_pos_eq [OF this] assms have "(y - 1) div k = q - 1" by simp
    with True show ?thesis by (simp add: q_def r_def)
  next
    case False
    with r have "0 \<le> r - 1" "r - 1 < k" by simp_all
    moreover have "y - 1 = k * q + (r - 1)" using y by simp
    ultimately have "(y - 1) div k = q" by (rule int_div_pos_eq [rotated])
    with False show ?thesis by (simp add: q_def r_def)
  qed
qed

lemma year_length:
  "daysSinceEpoch (y + 1) - daysSinceEpoch y = 365 + (if isLeap y then 1 else 0)"
proof -
  have a: "y div 4 - (y - 1) div 4 = (if y mod 4 = 0 then 1 else 0)"
    by (rule div_pred) simp
  have b: "y div 100 - (y - 1) div 100 = (if y mod 100 = 0 then 1 else 0)"
    by (rule div_pred) simp
  have c: "y div 400 - (y - 1) div 400 = (if y mod 400 = 0 then 1 else 0)"
    by (rule div_pred) simp
  have d: "y mod 400 = 0 \<Longrightarrow> y mod 100 = 0"
    by (simp add: mod_eq_0_iff_dvd) (rule dvd_trans [of 100 400], simp_all)
  have e: "y mod 100 = 0 \<Longrightarrow> y mod 4 = 0"
    by (simp add: mod_eq_0_iff_dvd) (rule dvd_trans [of 4 100], simp_all)
  define p4 where "p4 \<longleftrightarrow> y mod 4 = 0"
  define p100 where "p100 \<longleftrightarrow> y mod 100 = 0"
  define p400 where "p400 \<longleftrightarrow> y mod 400 = 0"
  define A where "A = y div 4 - (y - 1) div 4"
  define B where "B = y div 100 - (y - 1) div 100"
  define C where "C = y div 400 - (y - 1) div 400"
  have A: "A = (if p4 then 1 else 0)" unfolding A_def p4_def by (rule a)
  have B: "B = (if p100 then 1 else 0)" unfolding B_def p100_def by (rule b)
  have C: "C = (if p400 then 1 else 0)" unfolding C_def p400_def by (rule c)
  have d': "p400 \<Longrightarrow> p100" unfolding p400_def p100_def by (rule d)
  have e': "p100 \<Longrightarrow> p4" unfolding p100_def p4_def by (rule e)
  have L: "isLeap y \<longleftrightarrow> p4 \<and> (\<not> p100 \<or> p400)"
    by (simp add: isLeap_def p4_def p100_def p400_def)
  have "daysSinceEpoch (y + 1) - daysSinceEpoch y = 365 + A - B + C"
    by (simp add: daysSinceEpoch_def A_def B_def C_def)
  also have "\<dots> = 365 + (if isLeap y then 1 else 0)"
    unfolding A B C L using d' e' by (cases p4; cases p100; cases p400; simp)
  finally show ?thesis .
qed

lemma year_step: "daysSinceEpoch y + 365 \<le> daysSinceEpoch (y + 1)"
  using year_length [of y] by (simp split: if_splits)

lemma daysSinceEpoch_mono_nat: "daysSinceEpoch y \<le> daysSinceEpoch (y + int k)"
proof (induction k)
  case 0
  show ?case by simp
next
  case (Suc k)
  have step: "daysSinceEpoch (y + int k) \<le> daysSinceEpoch (y + int k + 1)"
    using year_step [of "y + int k"] by linarith
  have eq: "y + int (Suc k) = y + int k + 1" by simp
  show ?case unfolding eq by (rule order_trans [OF Suc step])
qed

lemma daysSinceEpoch_mono: "y \<le> z \<Longrightarrow> daysSinceEpoch y \<le> daysSinceEpoch z"
  using daysSinceEpoch_mono_nat [of y "nat (z - y)"] by simp

lemma year_unique:
  assumes "daysSinceEpoch y \<le> n" "n < daysSinceEpoch (y + 1)"
    and "daysSinceEpoch z \<le> n" "n < daysSinceEpoch (z + 1)"
  shows "y = z"
proof (rule ccontr)
  assume "y \<noteq> z"
  then consider "y + 1 \<le> z" | "z + 1 \<le> y" by linarith
  then show False
  proof cases
    case 1
    from daysSinceEpoch_mono [OF this] assms show False by linarith
  next
    case 2
    from daysSinceEpoch_mono [OF this] assms show False by linarith
  qed
qed

lemma div_between:
  fixes x k :: int
  assumes "0 < k"
  shows "k * (x div k) \<le> x" and "x < k * (x div k) + k"
proof -
  have "k * (x div k) + x mod k = x" by simp
  moreover have "0 \<le> x mod k" "x mod k < k" using assms by simp_all
  ultimately show "k * (x div k) \<le> x" and "x < k * (x div k) + k" by linarith+
qed

lemma leap_sum_bounds:
  fixes x a b c :: int
  assumes "a = x div 4" "b = x div 100" "c = x div 400"
  shows "97 * x \<le> 400 * a - 400 * b + 400 * c + 699"
    and "400 * a - 400 * b + 400 * c \<le> 97 * x + 396"
proof -
  have "4 * a \<le> x" "x < 4 * a + 4" "100 * b \<le> x" "x < 100 * b + 100"
    "400 * c \<le> x" "x < 400 * c + 400"
    unfolding assms by (rule div_between, simp)+
  then show "97 * x \<le> 400 * a - 400 * b + 400 * c + 699"
    and "400 * a - 400 * b + 400 * c \<le> 97 * x + 396"
    by linarith+
qed

lemma daysSinceEpoch_bounds:
  "146097 * y \<le> 400 * daysSinceEpoch y + 287811596"
  "400 * daysSinceEpoch y + 287810501 \<le> 146097 * y"
proof -
  define x where "x = y - 1"
  define a where "a = x div 4"
  define b where "b = x div 100"
  define c where "c = x div 400"
  have d: "400 * daysSinceEpoch y = 146000 * x + 400 * a - 400 * b + 400 * c - 287664800"
    by (simp add: daysSinceEpoch_def x_def a_def b_def c_def)
  have y: "146097 * y = 146097 * x + 146097" by (simp add: x_def)
  note leap_sum_bounds [OF a_def b_def c_def]
  then show "146097 * y \<le> 400 * daysSinceEpoch y + 287811596"
    and "400 * daysSinceEpoch y + 287810501 \<le> 146097 * y"
    using d y by linarith+
qed

lemma yearOfDays_bounds:
  "daysSinceEpoch (yearOfDays n) \<le> n \<and> n < daysSinceEpoch (yearOfDays n + 1)"
proof -
  define e where "e = (400 * (n + 719162)) div 146097"
  define r where "r = (400 * (n + 719162)) mod 146097"
  define y0 where "y0 = e + 1"
  have "400 * (n + 719162) = 146097 * e + r" by (simp add: e_def r_def)
  then have eq: "400 * n + 287664800 = 146097 * e + r" by simp
  have r: "0 \<le> r" "r < 146097" by (simp_all add: r_def)
  have "400 * daysSinceEpoch e + 287810501 \<le> 146097 * e"
    by (rule daysSinceEpoch_bounds(2))
  with eq r have "daysSinceEpoch e \<le> n" by linarith
  then have lo: "daysSinceEpoch (y0 - 1) \<le> n" by (simp add: y0_def)
  have "146097 * (e + 3) \<le> 400 * daysSinceEpoch (e + 3) + 287811596"
    by (rule daysSinceEpoch_bounds(1))
  then have "146097 * e + 438291 \<le> 400 * daysSinceEpoch (e + 3) + 287811596" by simp
  with eq r have e3: "n < daysSinceEpoch (e + 3)" by linarith
  have y3: "e + 3 = y0 + 1 + 1" by (simp add: y0_def)
  have hi: "n < daysSinceEpoch (y0 + 1 + 1)" using e3 unfolding y3 .
  have yd: "yearOfDays n =
      (if daysSinceEpoch (y0 + 1) \<le> n then y0 + 1
       else if n < daysSinceEpoch y0 then y0 - 1 else y0)"
    unfolding yearOfDays_def Let_def e_def y0_def ..
  show ?thesis
  proof (cases "daysSinceEpoch (y0 + 1) \<le> n")
    case True
    with hi show ?thesis by (simp add: yd)
  next
    case False
    show ?thesis
    proof (cases "n < daysSinceEpoch y0")
      case True
      with False lo show ?thesis by (simp add: yd)
    next
      case ge: False
      with False show ?thesis by (simp add: yd)
    qed
  qed
qed

lemma yearOfDays_eq:
  assumes "daysSinceEpoch y \<le> n" "n < daysSinceEpoch (y + 1)"
  shows "yearOfDays n = y"
  using year_unique [OF _ _ assms] yearOfDays_bounds [of n] by blast


lemma month_cases:
  fixes m :: int
  assumes "1 \<le> m" "m \<le> 12"
  shows "m = 1 \<or> m = 2 \<or> m = 3 \<or> m = 4 \<or> m = 5 \<or> m = 6
    \<or> m = 7 \<or> m = 8 \<or> m = 9 \<or> m = 10 \<or> m = 11 \<or> m = 12"
  using assms by arith

lemma yday_bounds:
  assumes "1 \<le> m" "m \<le> 12" "1 \<le> d" "d \<le> daysIn m y"
  shows "0 \<le> daysBefore m + leapDay y m + (d - 1)"
    and "daysBefore m + leapDay y m + (d - 1) < 365 + (if isLeap y then 1 else 0)"
proof -
  show "0 \<le> daysBefore m + leapDay y m + (d - 1)"
    using assms(3) by (simp add: daysBefore_def leapDay_def)
  show "daysBefore m + leapDay y m + (d - 1) < 365 + (if isLeap y then 1 else 0)"
  proof (cases "isLeap y")
    case True
    from month_cases [OF assms(1,2)] show ?thesis
      using assms(4) True
      by (elim disjE) (simp_all add: daysBefore_def leapDay_def daysIn_def)
  next
    case False
    from month_cases [OF assms(1,2)] show ?thesis
      using assms(4) False
      by (elim disjE) (simp_all add: daysBefore_def leapDay_def daysIn_def)
  qed
qed

lemma monthOfYday_Date:
  assumes "1 \<le> m" "m \<le> 12" "1 \<le> d" "d \<le> daysIn m y"
  shows "monthOfYday y (daysBefore m + leapDay y m + (d - 1)) = m"
proof (cases "isLeap y")
  case True
  from month_cases [OF assms(1,2)] show ?thesis
    using assms(3,4) True
    by (elim disjE) (simp_all add: daysBefore_def leapDay_def daysIn_def monthOfYday_def)
next
  case False
  from month_cases [OF assms(1,2)] show ?thesis
    using assms(3,4) False
    by (elim disjE) (simp_all add: daysBefore_def leapDay_def daysIn_def monthOfYday_def)
qed

lemma Date_absDays:
  assumes "1 \<le> m" "m \<le> 12" "0 \<le> h" "h < 24" "0 \<le> mi" "mi < 60" "0 \<le> s" "s < 60"
    "0 \<le> ns" "ns < 1000000000"
  shows "absDays e (Date y m d h mi s ns) = daysSinceEpoch y + daysBefore m + leapDay y m + (d - 1)"
    and "(unixSec (Date y m d h mi s ns) + offsetOf e (Date y m d h mi s ns)) mod 86400
         = h * 3600 + mi * 60 + s"
proof -
  define D where "D = daysSinceEpoch y + daysBefore m + leapDay y m + (d - 1)"
  define r where "r = h * 3600 + mi * 60 + s"
  have m: "(m - 1) div 12 = 0" "(m - 1) mod 12 + 1 = m" using assms(1,2) by auto
  have ns: "ns div 1000000000 = 0" using assms(9,10) by simp
  have r: "0 \<le> r" "r < 86400" using assms(3-8) unfolding r_def by linarith+
  have u: "unixSec (Date y m d h mi s ns) + offsetOf e (Date y m d h mi s ns) = D * 86400 + r"
    by (simp add: Date_def Let_def m ns offsetOf_def D_def r_def)
  have "(D * 86400 + r) div 86400 = D" using r by simp
  with u show "absDays e (Date y m d h mi s ns)
      = daysSinceEpoch y + daysBefore m + leapDay y m + (d - 1)"
    by (simp add: absDays_def D_def)
  have "(D * 86400 + r) mod 86400 = r" using r by simp
  with u show "(unixSec (Date y m d h mi s ns) + offsetOf e (Date y m d h mi s ns)) mod 86400
         = h * 3600 + mi * 60 + s"
    by (simp add: r_def)
qed

lemma Date_fields:
  assumes "1 \<le> m" "m \<le> 12" "1 \<le> d" "d \<le> daysIn m y"
    "0 \<le> h" "h < 24" "0 \<le> mi" "mi < 60" "0 \<le> s" "s < 60" "0 \<le> ns" "ns < 1000000000"
  shows "Year e (Date y m d h mi s ns) = y"
    and "Month e (Date y m d h mi s ns) = m"
    and "Day e (Date y m d h mi s ns) = d"
proof -
  let ?t = "Date y m d h mi s ns"
  let ?yd = "daysBefore m + leapDay y m + (d - 1)"
  have a: "absDays e ?t = daysSinceEpoch y + ?yd"
    using Date_absDays(1) [OF assms(1,2,5-12)] by simp
  have "daysSinceEpoch y \<le> daysSinceEpoch y + ?yd"
    using yday_bounds(1) [OF assms(1-4)] by simp
  moreover have "daysSinceEpoch y + ?yd < daysSinceEpoch (y + 1)"
    using yday_bounds(2) [OF assms(1-4)] year_length [of y] by linarith
  ultimately show y: "Year e ?t = y"
    unfolding Year_def a by (rule yearOfDays_eq)
  then have yd: "YearDay0 e ?t = ?yd" by (simp add: YearDay0_def a)
  show mo: "Month e ?t = m"
    unfolding Month_def y yd by (rule monthOfYday_Date [OF assms(1-4)])
  show "Day e ?t = d" by (simp add: Day_def y yd mo)
qed

lemma Date_clock:
  assumes "1 \<le> m" "m \<le> 12" "0 \<le> h" "h < 24" "0 \<le> mi" "mi < 60" "0 \<le> s" "s < 60"
    "0 \<le> ns" "ns < 1000000000"
  shows "Hour e (Date y m d h mi s ns) = h"
    and "Minute e (Date y m d h mi s ns) = mi"
    and "Second e (Date y m d h mi s ns) = s"
    and "Weekday e (Date y m d h mi s ns)
         = (daysSinceEpoch y + daysBefore m + leapDay y m + (d - 1) + 4) mod 7"
proof -
  let ?t = "Date y m d h mi s ns"
  let ?u = "unixSec ?t + offsetOf e ?t"
  have r: "?u mod 86400 = h * 3600 + mi * 60 + s"
    by (rule Date_absDays(2) [OF assms])
  show "Hour e ?t = h" unfolding Hour_def r using assms(5-8) by simp
  have "?u mod 3600 = (?u mod 86400) mod 3600" by (simp add: mod_mod_cancel)
  also have "\<dots> = (mi * 60 + s) mod 3600" unfolding r by (simp add: add.assoc)
  also have "\<dots> = mi * 60 + s"
  proof -
    have "0 \<le> mi * 60 + s" "mi * 60 + s < 3600" using assms(5-8) by linarith+
    then show ?thesis by simp
  qed
  finally have r2: "?u mod 3600 = mi * 60 + s" .
  show "Minute e ?t = mi" unfolding Minute_def r2 using assms(7,8) by simp
  have "?u mod 60 = (?u mod 3600) mod 60" by (simp add: mod_mod_cancel)
  also have "\<dots> = s" unfolding r2 using assms(7,8) by simp
  finally show "Second e ?t = s" by (simp add: Second_def)
  show "Weekday e ?t = (daysSinceEpoch y + daysBefore m + leapDay y m + (d - 1) + 4) mod 7"
    by (simp add: Weekday_def Date_absDays(1) [OF assms])
qed

section \<open>Headline validation: properties\<close>

lemma runes_ascii: "byte c < 0x80 \<Longrightarrow> runes (c # cs) = byte c # runes cs"
  by simp

lemma reSpace_ascii: "reSpace c \<Longrightarrow> byte c < 0x80"
  by (auto simp: reSpace_def)

lemma allspace_dropWhile:
  "list_all IsSpace (runes cs) \<Longrightarrow> list_all IsSpace (runes (dropWhile reSpace cs))"
proof (induction cs)
  case Nil
  then show ?case by simp
next
  case (Cons c cs)
  show ?case
  proof (cases "reSpace c")
    case True
    with Cons.prems have "list_all IsSpace (runes cs)"
      by (simp add: runes_ascii reSpace_ascii del: runes.simps)
    with True Cons.IH show ?thesis by simp
  next
    case False
    with Cons.prems show ?thesis by simp
  qed
qed

text \<open>
  A lead byte of 0x80 or more that decodes to something other than \<^const>\<open>RuneError\<close>
  starts a well-formed sequence of \<open>n\<close> bytes, all of them 0x80 or more, and what follows
  the sequence has no part in the result.
\<close>

lemma decode_multi:
  assumes "\<not> byte c < 0x80" "DecodeRuneInString (c # cs) = (r, n)" "r \<noteq> RuneError"
  shows "2 \<le> n \<and> n \<le> length (c # cs) \<and> (\<forall>b \<in> set (take n (c # cs)). 0x80 \<le> byte b)
     \<and> (\<forall>t. DecodeRuneInString (take n (c # cs) @ t) = (r, n))"
  using assms
  by (auto simp: Let_def cont_def split: list.splits if_splits)

lemma Replace_nonspace_prefix:
  "\<forall>b \<in> set p. \<not> reSpace b \<Longrightarrow> ReplaceAllSpace (p @ t) = p @ ReplaceAllSpace t"
  by (induction p) simp_all

lemma runes_prefix:
  assumes "DecodeRuneInString (p @ t) = (r, length p)" "p \<noteq> []"
  shows "runes (p @ t) = r # runes t"
proof -
  from assms(2) obtain c p' where p: "p = c # p'" by (cases p) auto
  with assms(1) show ?thesis by simp
qed

lemma not_IsSpace_RuneError: "\<not> IsSpace RuneError"
  by (simp add: IsSpace_def RuneError_def)

text \<open>The replacement keeps a string of white space a string of white space.\<close>

lemma allspace_Replace:
  "list_all IsSpace (runes s) \<Longrightarrow> list_all IsSpace (runes (ReplaceAllSpace s))"
proof (induction "length s" arbitrary: s rule: less_induct)
  case less
  show ?case
  proof (cases s)
    case Nil
    then show ?thesis by simp
  next
    case (Cons c cs)
    show ?thesis
    proof (cases "byte c < 0x80")
      case True
      with less.prems Cons have hd: "IsSpace (byte c)" and tl: "list_all IsSpace (runes cs)"
        by simp_all
      show ?thesis
      proof (cases "reSpace c")
        case sp: True
        have "length (dropWhile reSpace cs) < length s"
          using Cons length_dropWhile_le [of reSpace cs] by simp
        from less.hyps [OF this allspace_dropWhile [OF tl]]
        show ?thesis using Cons sp by (simp add: IsSpace_def byte_def)
      next
        case nsp: False
        have "length cs < length s" using Cons by simp
        from less.hyps [OF this tl]
        show ?thesis using Cons nsp True hd by simp
      qed
    next
      case False
      obtain r n where d: "DecodeRuneInString (c # cs) = (r, n)"
        by (cases "DecodeRuneInString (c # cs)")
      with less.prems Cons have hd: "IsSpace r"
        and tl: "list_all IsSpace (runes (drop (n - 1) cs))"
        by simp_all
      from hd have "r \<noteq> RuneError" using not_IsSpace_RuneError by auto
      from decode_multi [OF False d this]
      have n: "2 \<le> n" "n \<le> length (c # cs)"
        and hi: "\<forall>b \<in> set (take n (c # cs)). 0x80 \<le> byte b"
        and dec: "\<And>t. DecodeRuneInString (take n (c # cs) @ t) = (r, n)"
        by auto
      define p where "p = take n (c # cs)"
      define t where "t = drop n (c # cs)"
      have s: "s = p @ t" by (simp add: p_def t_def Cons)
      have lp: "length p = n" using n by (simp add: p_def)
      have pne: "p \<noteq> []" using lp n by auto
      have t': "t = drop (n - 1) cs" using n by (cases n) (simp_all add: t_def)
      have nsp: "\<forall>b \<in> set p. \<not> reSpace b"
        using hi reSpace_ascii unfolding p_def by fastforce
      have "length t < length s" using s lp n by simp
      from less.hyps [OF this] tl t'
      have IH: "list_all IsSpace (runes (ReplaceAllSpace t))" by simp
      have "runes (p @ ReplaceAllSpace t) = r # runes (ReplaceAllSpace t)"
        using dec [of "ReplaceAllSpace t"] pne lp runes_prefix unfolding p_def by metis
      with IH hd show ?thesis
        by (simp add: s Replace_nonspace_prefix [OF nsp])
    qed
  qed
qed

lemma allspace_TrimLeft: "list_all IsSpace (runes s) \<Longrightarrow> TrimLeftSpace s = []"
proof (induction s rule: TrimLeftSpace.induct)
  case 1
  show ?case by simp
next
  case (2 c cs)
  obtain r n where d: "DecodeRuneInString (c # cs) = (r, n)"
    by (cases "DecodeRuneInString (c # cs)")
  with "2.prems" have "IsSpace r" "list_all IsSpace (runes (drop (n - 1) cs))"
    by simp_all
  with "2.IH" [OF d [symmetric] refl] d show ?case by simp
qed

lemma TrimRightSpace_Nil: "TrimRightSpace [] = []"
  by (simp add: TrimRightSpace_def)

text \<open>
  Claim C7.  Headline sanitation: the input \<^verbatim>\<open>"  Test   headline  "\<close> with a maximum of 50
  gives exactly \<^verbatim>\<open>"Test headline"\<close>; the empty input gives \<^const>\<open>ErrEmptyHeadline\<close>, whatever
  the maximum; and every other input whose sanitized form (white space collapsed, then
  trimmed) has more code points than the maximum gives \<^const>\<open>ErrHeadlineTooLong\<close>.  The
  count is \<^term>\<open>length (runes h)\<close>, the number of code points, not \<^term>\<open>length h\<close>, the
  number of bytes.
\<close>

theorem headline_sanitation:
  "ValidateAndSanitizeHeadline ''  Test   headline  '' 50 = Inr ''Test headline''
   \<and> (\<forall>maxLength. ValidateAndSanitizeHeadline [] maxLength = Inl ErrEmptyHeadline)
   \<and> (\<forall>rawHeadline maxLength.
        rawHeadline \<noteq> []
          \<and> maxLength < int (length (runes (TrimSpace (ReplaceAllSpace rawHeadline))))
        \<longrightarrow> ValidateAndSanitizeHeadline rawHeadline maxLength = Inl ErrHeadlineTooLong)"
proof (intro conjI allI impI)
  show "ValidateAndSanitizeHeadline ''  Test   headline  '' 50 = Inr ''Test headline''"
    by (simp add: ValidateAndSanitizeHeadline_def TrimSpace_def TrimRightSpace_def reSpace_def
          byte_def IsSpace_def DecodeLastRuneInString_def)
qed (simp_all add: ValidateAndSanitizeHeadline_def)

text \<open>
  A headline of three two-byte letters (C3 A4, C3 B6, C3 BC) between two spaces is three
  code points and six bytes long once sanitized: it is too long for a maximum of 2, and passes
  with a maximum of 3.
\<close>

theorem headline_sanitation_witness:
  "ValidateAndSanitizeHeadline
     [CHR '' '', CHR 0xC3, CHR 0xA4, CHR 0xC3, CHR 0xB6, CHR 0xC3, CHR 0xBC, CHR '' ''] 2
     = Inl ErrHeadlineTooLong
   \<and> ValidateAndSanitizeHeadline
     [CHR '' '', CHR 0xC3, CHR 0xA4, CHR 0xC3, CHR 0xB6, CHR 0xC3, CHR 0xBC, CHR '' ''] 3
     = Inr [CHR 0xC3, CHR 0xA4, CHR 0xC3, CHR 0xB6, CHR 0xC3, CHR 0xBC]
   \<and> ValidateAndSanitizeHeadline ''  Test   headline  '' 50 = Inr ''Test headline''
   \<and> ValidateAndSanitizeHeadline [] 50 = Inl ErrEmptyHeadline"
proof -
  let ?raw = "[CHR '' '', CHR 0xC3, CHR 0xA4, CHR 0xC3, CHR 0xB6, CHR 0xC3, CHR 0xBC, CHR '' '']"
  have len: "?raw \<noteq> [] \<and> 2 < int (length (runes (TrimSpace (ReplaceAllSpace ?raw))))"
    by (simp add: TrimSpace_def TrimRightSpace_def reSpace_def byte_def IsSpace_def
          DecodeLastRuneInString_def lastRuneStart_def lastStart.simps RuneStart_def cont_def)
  have ok: "ValidateAndSanitizeHeadline ?raw 3
      = Inr [CHR 0xC3, CHR 0xA4, CHR 0xC3, CHR 0xB6, CHR 0xC3, CHR 0xBC]"
    by (simp add: ValidateAndSanitizeHeadline_def TrimSpace_def TrimRightSpace_def reSpace_def
          byte_def IsSpace_def DecodeLastRuneInString_def lastRuneStart_def lastStart.simps
          RuneStart_def cont_def)
  from headline_sanitation len ok show ?thesis by blast
qed

text \<open>
  Claim C9.  A headline that is not empty and consists of white space only (every code point
  of it has the Unicode property White_Space) is accepted under every maximum that is not
  negative, and the accepted headline is the empty string: the test for an empty headline
  looks at the raw input only.
\<close>

theorem whitespace_only_headline_accepted:
  assumes "rawHeadline \<noteq> []" and "list_all IsSpace (runes rawHeadline)" and "0 \<le> maxLength"
  shows "ValidateAndSanitizeHeadline rawHeadline maxLength = Inr []"
  using assms allspace_TrimLeft [OF allspace_Replace [OF assms(2)]]
  by (simp add: ValidateAndSanitizeHeadline_def TrimSpace_def TrimRightSpace_Nil)

text \<open>
  A space, a tab, a no-break space (C2 A0), a vertical tab, a space and an ideographic
  space (E3 80 80), with the maximum 0.
\<close>

theorem whitespace_only_headline_accepted_witness:
  "[CHR 0x20, CHR 0x09, CHR 0xC2, CHR 0xA0, CHR 0x0B, CHR 0x20, CHR 0xE3, CHR 0x80, CHR 0x80] \<noteq> []
   \<and> list_all IsSpace
       (runes [CHR 0x20, CHR 0x09, CHR 0xC2, CHR 0xA0, CHR 0x0B, CHR 0x20, CHR 0xE3, CHR 0x80, CHR 0x80])
   \<and> ValidateAndSanitizeHeadline
       [CHR 0x20, CHR 0x09, CHR 0xC2, CHR 0xA0, CHR 0x0B, CHR 0x20, CHR 0xE3, CHR 0x80, CHR 0x80] 0
     = Inr []"
proof -
  let ?raw = "[CHR 0x20, CHR 0x09, CHR 0xC2, CHR 0xA0, CHR 0x0B, CHR 0x20, CHR 0xE3, CHR 0x80, CHR 0x80]"
  have ne: "?raw \<noteq> []" by simp
  have sp: "list_all IsSpace (runes ?raw)" by (simp add: IsSpace_def byte_def cont_def)
  from whitespace_only_headline_accepted [OF ne sp, of 0] ne sp show ?thesis by simp
qed

end
